theory Spec2Isabelle
  imports Main "HOL-Library.Log_Nat"
begin

section \<open>The C++ type \<open>double\<close>\<close>

text \<open>
  Balances and amounts are C++ \<open>double\<close>s: IEEE-754 binary64 with the default rounding
  (to nearest, ties to even).  A finite value is \<open>Finite s m e\<close>, standing for
  \<open>(-1)^s * m * 2^e\<close>; the hardware's values are those with \<open>m < 2^53\<close>,
  \<open>-1074 \<le> e \<le> 971\<close> and \<open>2^52 \<le> m\<close> unless \<open>e = -1074\<close> (subnormal).  A zero is
  written \<open>Finite s 0 0\<close>, its exponent being immaterial.  The program never looks at
  the payload of a NaN, so there is one \<open>NaN\<close>.
\<close>

datatype double = Finite bool nat int | Infinity bool | NaN

definition signed :: "bool \<Rightarrow> nat \<Rightarrow> int" where
  "signed s m = (if s then - int m else int m)"

text \<open>The integer \<open>k\<close> with \<open>k * 2^e0 = (-1)^s * m * 2^e\<close>, for \<open>e0 \<le> e\<close>.\<close>

definition scaled :: "bool \<Rightarrow> nat \<Rightarrow> int \<Rightarrow> int \<Rightarrow> int" where
  "scaled s m e e0 = signed s m * 2 ^ nat (e - e0)"

text \<open>
  Rounding the exact value \<open>a * 2^e\<close> (\<open>a > 0\<close>) to a double: \<open>ulp_exponent\<close> is the
  exponent at which the result has at most 53 bits, \<open>significand\<close> divides by the
  power of two in between, rounding to nearest and ties to even, and \<open>pack\<close> carries a
  significand that rounded up to \<open>2^53\<close> and overflows to infinity.
\<close>

definition ulp_exponent :: "nat \<Rightarrow> int \<Rightarrow> int" where
  "ulp_exponent a e = max (e + bitlen (int a) - 53) (- 1074)"

definition ties_to_even :: "nat \<Rightarrow> nat \<Rightarrow> nat \<Rightarrow> nat" where
  "ties_to_even q r h = (if h < r \<or> (r = h \<and> odd q) then q + 1 else q)"

definition significand :: "nat \<Rightarrow> int \<Rightarrow> int \<Rightarrow> nat" where
  "significand a e t =
     (if t \<le> e then a * 2 ^ nat (e - t)
      else ties_to_even (a div 2 ^ nat (t - e)) (a mod 2 ^ nat (t - e)) (2 ^ (nat (t - e) - 1)))"

definition pack :: "bool \<Rightarrow> nat \<Rightarrow> int \<Rightarrow> double" where
  "pack s m t =
     (if m = 2 ^ 53 then (if 971 < t + 1 then Infinity s else Finite s (2 ^ 52) (t + 1))
      else if 971 < t then Infinity s else Finite s m t)"

definition round_double :: "bool \<Rightarrow> nat \<Rightarrow> int \<Rightarrow> double" where
  "round_double s a e = pack s (significand a e (ulp_exponent a e)) (ulp_exponent a e)"

text \<open>An exact zero result takes the sign \<open>z\<close>; every other result the sign of \<open>i\<close>.\<close>

definition round_signed :: "bool \<Rightarrow> int \<Rightarrow> int \<Rightarrow> double" where
  "round_signed z i e = (if i = 0 then Finite z 0 0 else round_double (i < 0) (nat \<bar>i\<bar>) e)"

text \<open>
  \<open>x + y\<close>: the exact sum of two finite values is an integer multiple of \<open>2^(min e1 e2)\<close>,
  rounded once.  An exact zero sum is \<open>-0\<close> only when both operands are negative zeros.
\<close>

fun fadd :: "double \<Rightarrow> double \<Rightarrow> double" where
  "fadd NaN y = NaN"
| "fadd x NaN = NaN"
| "fadd (Infinity s1) (Infinity s2) = (if s1 = s2 then Infinity s1 else NaN)"
| "fadd (Infinity s1) (Finite s2 m2 e2) = Infinity s1"
| "fadd (Finite s1 m1 e1) (Infinity s2) = Infinity s2"
| "fadd (Finite s1 m1 e1) (Finite s2 m2 e2) =
     round_signed (s1 \<and> s2)
       (scaled s1 m1 e1 (min e1 e2) + scaled s2 m2 e2 (min e1 e2)) (min e1 e2)"

fun fneg :: "double \<Rightarrow> double" where
  "fneg NaN = NaN"
| "fneg (Infinity s) = Infinity (\<not> s)"
| "fneg (Finite s m e) = Finite (\<not> s) m e"

text \<open>\<open>x - y\<close> is \<open>x + (-y)\<close>, signed zeros included.\<close>

definition fsub :: "double \<Rightarrow> double \<Rightarrow> double" where
  "fsub x y = fadd x (fneg y)"

text \<open>The comparisons \<open>x < y\<close>, \<open>x \<le> y\<close> and \<open>x > y\<close>: false whenever an operand is NaN.\<close>

fun flt :: "double \<Rightarrow> double \<Rightarrow> bool" where
  "flt NaN y = False"
| "flt x NaN = False"
| "flt (Infinity s1) (Infinity s2) = (s1 \<and> \<not> s2)"
| "flt (Infinity s1) (Finite s2 m2 e2) = s1"
| "flt (Finite s1 m1 e1) (Infinity s2) = (\<not> s2)"
| "flt (Finite s1 m1 e1) (Finite s2 m2 e2) =
     (scaled s1 m1 e1 (min e1 e2) < scaled s2 m2 e2 (min e1 e2))"

fun fle :: "double \<Rightarrow> double \<Rightarrow> bool" where
  "fle NaN y = False"
| "fle x NaN = False"
| "fle (Infinity s1) (Infinity s2) = (s1 \<or> \<not> s2)"
| "fle (Infinity s1) (Finite s2 m2 e2) = s1"
| "fle (Finite s1 m1 e1) (Infinity s2) = (\<not> s2)"
| "fle (Finite s1 m1 e1) (Finite s2 m2 e2) =
     (scaled s1 m1 e1 (min e1 e2) \<le> scaled s2 m2 e2 (min e1 e2))"

definition fgt :: "double \<Rightarrow> double \<Rightarrow> bool" where
  "fgt x y = flt y x"

text \<open>The conversion of an integer literal (\<open>0\<close>, \<open>-1\<close>, \<open>1000\<close>) to \<open>double\<close>.\<close>

definition double_of_int :: "int \<Rightarrow> double" where
  "double_of_int i = round_signed False i 0"

text \<open>The real numbers among the doubles: neither an infinity nor NaN.\<close>

fun is_finite :: "double \<Rightarrow> bool" where
  "is_finite (Finite s m e) = True"
| "is_finite (Infinity s) = False"
| "is_finite NaN = False"

text \<open>
  The doubles of the hardware: a finite value in the normal form described above, an
  infinity or NaN.
\<close>

fun is_double :: "double \<Rightarrow> bool" where
  "is_double (Finite s m e) =
     (if m = 0 then e = 0
      else m < 2 ^ 53 \<and> - 1074 \<le> e \<and> e \<le> 971 \<and> (2 ^ 52 \<le> m \<or> e = - 1074))"
| "is_double (Infinity s) = True"
| "is_double NaN = True"

text \<open>
  The rational number a finite double stands for.  An infinity and NaN stand for none and
  are given 0; \<open>exact_sum\<close> below asks for a finite sum.
\<close>

fun valof :: "double \<Rightarrow> rat" where
  "valof (Finite s m e) = of_int (signed s m) * 2 powi e"
| "valof (Infinity s) = 0"
| "valof NaN = 0"

text \<open>The comparison \<open>x == y\<close>: by value, so \<open>-0 == +0\<close>, and false for NaN.\<close>

fun feq :: "double \<Rightarrow> double \<Rightarrow> bool" where
  "feq NaN y = False"
| "feq x NaN = False"
| "feq (Infinity s1) (Infinity s2) = (s1 = s2)"
| "feq (Infinity s1) (Finite s2 m2 e2) = False"
| "feq (Finite s1 m1 e1) (Infinity s2) = False"
| "feq (Finite s1 m1 e1) (Finite s2 m2 e2) =
     (scaled s1 m1 e1 (min e1 e2) = scaled s2 m2 e2 (min e1 e2))"

text \<open>The sum \<open>x + y\<close> is computed exactly: it neither overflows nor is rounded.\<close>

definition exact_sum :: "double \<Rightarrow> double \<Rightarrow> bool" where
  "exact_sum x y \<longleftrightarrow> is_finite (fadd x y) \<and> valof (fadd x y) = valof x + valof y"

section \<open>Transaction\<close>

datatype TransactionType = DEPOSIT | WITHDRAW

record Transaction =
  type :: TransactionType
  amount :: double
  timestamp :: string

text \<open>
  The constructor \<open>Transaction(t, amt)\<close> reads the clock (\<open>getCurrentTime\<close>); \<open>now\<close> is
  the string the clock gives at that moment.
\<close>

definition Transaction_new :: "string \<Rightarrow> TransactionType \<Rightarrow> double \<Rightarrow> Transaction" where
  "Transaction_new now t amt = \<lparr>type = t, amount = amt, timestamp = now\<rparr>"

section \<open>Account\<close>

text \<open>
  The mutex of an account serialises its operations and holds no data; a call is modelled
  as one step from the account before to the account after.  What the operations print
  is left out.
\<close>

record Account =
  accountNumber :: string
  balance :: double
  transactions :: "Transaction list"

definition Account_new :: "string \<Rightarrow> double \<Rightarrow> Account" where
  "Account_new accNum bal = \<lparr>accountNumber = accNum, balance = bal, transactions = []\<rparr>"

definition Account_deposit :: "string \<Rightarrow> double \<Rightarrow> Account \<Rightarrow> Account" where
  "Account_deposit now amt acc =
     acc\<lparr>balance := fadd (balance acc) amt,
         transactions := transactions acc @ [Transaction_new now DEPOSIT amt]\<rparr>"

definition Account_withdraw :: "string \<Rightarrow> double \<Rightarrow> Account \<Rightarrow> bool \<times> Account" where
  "Account_withdraw now amt acc =
     (if fgt amt (balance acc) then (False, acc)
      else (True, acc\<lparr>balance := fsub (balance acc) amt,
                       transactions := transactions acc @ [Transaction_new now WITHDRAW amt]\<rparr>))"

definition Account_getBalance :: "Account \<Rightarrow> double" where
  "Account_getBalance acc = balance acc"

text \<open>
  A sequence of calls on one account, each with the clock reading of its moment; under
  the account's lock the calls of several threads take effect in some such order.
\<close>

datatype AccountCall = CallDeposit string double | CallWithdraw string double

fun Account_call :: "AccountCall \<Rightarrow> Account \<Rightarrow> Account" where
  "Account_call (CallDeposit now amt) acc = Account_deposit now amt acc"
| "Account_call (CallWithdraw now amt) acc = snd (Account_withdraw now amt acc)"

fun Account_calls :: "AccountCall list \<Rightarrow> Account \<Rightarrow> Account" where
  "Account_calls [] acc = acc"
| "Account_calls (c # cs) acc = Account_calls cs (Account_call c acc)"

text \<open>Calls whose amounts are real numbers, the deposited ones not negative.\<close>

fun nonneg_deposit :: "AccountCall \<Rightarrow> bool" where
  "nonneg_deposit (CallDeposit now amt) = (is_finite amt \<and> fle (double_of_int 0) amt)"
| "nonneg_deposit (CallWithdraw now amt) = is_finite amt"

section \<open>Objects and pointers\<close>

text \<open>
  Users and accounts are created with \<open>new\<close> and shared through pointers.  An object
  lives at an address of the heap; a pointer is \<open>Some a\<close> for an address or \<open>None\<close>
  for \<open>nullptr\<close>.  Following a pointer that is null or has no object at its address is
  undefined in C++: an operation that does so returns \<open>None\<close>.
\<close>

type_synonym addr = nat

section \<open>User\<close>

record User =
  name :: string
  pin :: string
  accounts :: "addr option list"

definition User_new :: "string \<Rightarrow> string \<Rightarrow> User" where
  "User_new n p = \<lparr>name = n, pin = p, accounts = []\<rparr>"

definition User_authenticate :: "User \<Rightarrow> string \<Rightarrow> bool" where
  "User_authenticate u inputPin = (pin u = inputPin)"

definition User_addAccount :: "addr option \<Rightarrow> User \<Rightarrow> User" where
  "User_addAccount account u = u\<lparr>accounts := User.accounts u @ [account]\<rparr>"

definition User_getAccounts :: "User \<Rightarrow> addr option list" where
  "User_getAccounts u = User.accounts u"

section \<open>The heap\<close>

record heap =
  account_at :: "addr \<rightharpoonup> Account"
  user_at :: "addr \<rightharpoonup> User"

definition deref_account :: "heap \<Rightarrow> addr option \<Rightarrow> Account option" where
  "deref_account h p = (case p of None \<Rightarrow> None | Some a \<Rightarrow> account_at h a)"

definition deref_user :: "heap \<Rightarrow> addr option \<Rightarrow> User option" where
  "deref_user h p = (case p of None \<Rightarrow> None | Some a \<Rightarrow> user_at h a)"

section \<open>BankService\<close>

text \<open>
  The two \<open>unordered_map\<close>s of the directory, from account number to the user and to
  the account.  \<open>find(k) != end()\<close> is \<open>m k \<noteq> None\<close>, and \<open>m[k] = v\<close> is
  \<open>m(k \<mapsto> v)\<close>.
\<close>

record BankService =
  users :: "string \<rightharpoonup> addr option"
  accounts :: "string \<rightharpoonup> addr option"

definition BankService_new :: BankService where
  "BankService_new = \<lparr>users = Map.empty, accounts = Map.empty\<rparr>"

text \<open>
  \<open>addUser\<close>: the loop over \<open>user->getAccounts()\<close>, reading the number of each
  account through its pointer.
\<close>

fun addUser_loop :: "heap \<Rightarrow> addr option \<Rightarrow> addr option list \<Rightarrow> BankService \<Rightarrow> BankService option" where
  "addUser_loop h user [] b = Some b"
| "addUser_loop h user (acc # rest) b =
     (case deref_account h acc of
        None \<Rightarrow> None
      | Some a \<Rightarrow>
          addUser_loop h user rest
            (b\<lparr>users := (users b)(accountNumber a \<mapsto> user),
               accounts := (accounts b)(accountNumber a \<mapsto> acc)\<rparr>))"

definition BankService_addUser :: "heap \<Rightarrow> addr option \<Rightarrow> BankService \<Rightarrow> BankService option" where
  "BankService_addUser h user b =
     (case deref_user h user of
        None \<Rightarrow> None
      | Some u \<Rightarrow> addUser_loop h user (User_getAccounts u) b)"

text \<open>The lookups return the stored pointer, or \<open>nullptr\<close> for a key that is not found.\<close>

definition BankService_getUserByAccount :: "BankService \<Rightarrow> string \<Rightarrow> addr option" where
  "BankService_getUserByAccount b accNum =
     (case users b accNum of Some p \<Rightarrow> p | None \<Rightarrow> None)"

definition BankService_getAccount :: "BankService \<Rightarrow> string \<Rightarrow> addr option" where
  "BankService_getAccount b accNum =
     (case accounts b accNum of Some p \<Rightarrow> p | None \<Rightarrow> None)"

text \<open>
  The operations on an account found by its number return their result and the heap after
  the call; the directory itself is only read.  \<open>showTransactions\<close> only prints.
\<close>

definition BankService_deposit ::
  "string \<Rightarrow> heap \<Rightarrow> BankService \<Rightarrow> string \<Rightarrow> double \<Rightarrow> (bool \<times> heap) option" where
  "BankService_deposit now h b accNum amt =
     (case BankService_getAccount b accNum of
        None \<Rightarrow> Some (False, h)
      | Some a \<Rightarrow>
          (case account_at h a of
             None \<Rightarrow> None
           | Some acc \<Rightarrow>
               Some (True, h\<lparr>account_at := (account_at h)(a \<mapsto> Account_deposit now amt acc)\<rparr>)))"

definition BankService_withdraw ::
  "string \<Rightarrow> heap \<Rightarrow> BankService \<Rightarrow> string \<Rightarrow> double \<Rightarrow> (bool \<times> heap) option" where
  "BankService_withdraw now h b accNum amt =
     (case BankService_getAccount b accNum of
        None \<Rightarrow> Some (False, h)
      | Some a \<Rightarrow>
          (case account_at h a of
             None \<Rightarrow> None
           | Some acc \<Rightarrow>
               Some (fst (Account_withdraw now amt acc),
                     h\<lparr>account_at := (account_at h)(a \<mapsto> snd (Account_withdraw now amt acc))\<rparr>)))"

definition BankService_getBalance :: "heap \<Rightarrow> BankService \<Rightarrow> string \<Rightarrow> double option" where
  "BankService_getBalance h b accNum =
     (case BankService_getAccount b accNum of
        None \<Rightarrow> Some (double_of_int (- 1))
      | Some a \<Rightarrow>
          (case account_at h a of
             None \<Rightarrow> None
           | Some acc \<Rightarrow> Some (Account_getBalance acc)))"

text \<open>A sequence of \<open>addUser\<close> calls, each with the heap of its moment.\<close>

fun BankService_addUsers :: "(heap \<times> addr option) list \<Rightarrow> BankService \<Rightarrow> BankService option" where
  "BankService_addUsers [] b = Some b"
| "BankService_addUsers ((h, user) # rest) b =
     (case BankService_addUser h user b of
        None \<Rightarrow> None
      | Some b' \<Rightarrow> BankService_addUsers rest b')"

section \<open>ATM\<close>

text \<open>
  The session of the front end: \<open>currentUser\<close> and \<open>currentAccount\<close>, both null when
  logged out.  The service the ATM points to is passed to \<open>login\<close> as the directory \<open>b\<close>.
  The menu loop reads the console and calls the service; it is left out.
\<close>

record ATM =
  currentUser :: "addr option"
  currentAccount :: "addr option"

definition ATM_new :: ATM where
  "ATM_new = \<lparr>currentUser = None, currentAccount = None\<rparr>"

definition ATM_login :: "heap \<Rightarrow> BankService \<Rightarrow> string \<Rightarrow> string \<Rightarrow> ATM \<Rightarrow> (bool \<times> ATM) option" where
  "ATM_login h b accNum pn atm =
     (case BankService_getUserByAccount b accNum of
        None \<Rightarrow> Some (False, atm)
      | Some u \<Rightarrow>
          (case user_at h u of
             None \<Rightarrow> None
           | Some usr \<Rightarrow>
               if User_authenticate usr pn
               then Some (True, atm\<lparr>currentUser := Some u,
                                      currentAccount := BankService_getAccount b accNum\<rparr>)
               else Some (False, atm)))"

definition ATM_logout :: "ATM \<Rightarrow> ATM" where
  "ATM_logout atm = atm\<lparr>currentUser := None, currentAccount := None\<rparr>"

section \<open>The setup of \<open>main\<close>\<close>

text \<open>
  \<open>main\<close> creates Alice (PIN 1234) with account ACC1001 of balance 1000 and Bob (PIN 4321)
  with account ACC2001 of balance 500, and registers both.  The objects are given the
  addresses 0 to 3 in the order of their creation; \<open>main_bank\<close> is the directory that the
  two \<open>addUser\<close> calls build on that heap, as \<open>main_bank_registered\<close> below shows.
\<close>

definition main_heap :: heap where
  "main_heap =
     \<lparr>account_at = [1 \<mapsto> Account_new ''ACC1001'' (double_of_int 1000),
                     3 \<mapsto> Account_new ''ACC2001'' (double_of_int 500)],
      user_at = [0 \<mapsto> User_addAccount (Some 1) (User_new ''Alice'' ''1234''),
                 2 \<mapsto> User_addAccount (Some 3) (User_new ''Bob'' ''4321'')]\<rparr>"

definition main_bank :: BankService where
  "main_bank =
     \<lparr>users = [''ACC1001'' \<mapsto> Some 0, ''ACC2001'' \<mapsto> Some 2],
      accounts = [''ACC1001'' \<mapsto> Some 1, ''ACC2001'' \<mapsto> Some 3]\<rparr>"

text \<open>
  What registration establishes for a directory \<open>b\<close> on a heap \<open>h\<close>: a number is a key
  of both maps or of neither, and a key is mapped to the address of a user and to the
  address of an account.
\<close>

definition directory_ok :: "heap \<Rightarrow> BankService \<Rightarrow> bool" where
  "directory_ok h b \<longleftrightarrow>
     (\<forall>k. (users b k = None \<and> accounts b k = None) \<or>
          (\<exists>p a. users b k = Some (Some p) \<and> user_at h p \<noteq> None \<and>
                 accounts b k = Some (Some a) \<and> account_at h a \<noteq> None))"

section \<open>Facts about \<open>double\<close>\<close>

lemmas double_eval =
  double_of_int_def round_signed_def round_double_def pack_def significand_def
  ties_to_even_def ulp_exponent_def bitlen_def compute_floorlog scaled_def signed_def
  fsub_def fgt_def

lemma double_of_int_0: "double_of_int 0 = Finite False 0 0"
  by (simp add: double_of_int_def round_signed_def)

lemma scaled_nonneg: "0 \<le> scaled s m e e0 \<longleftrightarrow> 0 \<le> signed s m"
  by (simp add: scaled_def zero_le_mult_iff)

lemma scaled_neg: "scaled s m e e0 < 0 \<longleftrightarrow> signed s m < 0"
  by (simp add: scaled_def mult_less_0_iff)

lemma scaled_pos: "0 < scaled s m e e0 \<longleftrightarrow> 0 < signed s m"
  by (simp add: scaled_def zero_less_mult_iff)

lemma scaled_zero: "scaled False 0 e e0 = 0"
  by (simp add: scaled_def signed_def)

lemma fle_zero_Finite: "fle (double_of_int 0) (Finite s m e) \<longleftrightarrow> 0 \<le> signed s m"
  by (simp add: double_of_int_0 scaled_zero scaled_nonneg)

lemma fle_zero_Infinity: "fle (double_of_int 0) (Infinity s) \<longleftrightarrow> \<not> s"
  by (simp add: double_of_int_0)

lemma flt_Finite_zero: "flt (Finite s m e) (double_of_int 0) \<longleftrightarrow> signed s m < 0"
  by (simp add: double_of_int_0 scaled_zero scaled_neg)

lemma flt_zero_Finite: "flt (double_of_int 0) (Finite s m e) \<longleftrightarrow> 0 < signed s m"
  by (simp add: double_of_int_0 scaled_zero scaled_pos)

text \<open>Rounding keeps the sign: a sum that is exactly non-negative rounds to a non-negative double.\<close>

lemma fle_zero_pack: "fle (double_of_int 0) (pack False m t)"
  by (simp add: pack_def fle_zero_Finite fle_zero_Infinity signed_def)

lemma fle_zero_round_signed: "0 \<le> i \<Longrightarrow> fle (double_of_int 0) (round_signed z i e)"
  by (simp add: round_signed_def round_double_def fle_zero_pack fle_zero_Finite signed_def)

lemma fadd_nonneg:
  "fle (double_of_int 0) b \<Longrightarrow> fle (double_of_int 0) a \<Longrightarrow> fle (double_of_int 0) (fadd b a)"
proof (cases b)
  case bF: (Finite s1 m1 e1)
  show "fle (double_of_int 0) b \<Longrightarrow> fle (double_of_int 0) a \<Longrightarrow> ?thesis"
  proof (cases a)
    case (Finite s2 m2 e2)
    assume "fle (double_of_int 0) b" "fle (double_of_int 0) a"
    then have "0 \<le> scaled s1 m1 e1 (min e1 e2)" "0 \<le> scaled s2 m2 e2 (min e1 e2)"
      by (simp_all add: bF Finite fle_zero_Finite scaled_nonneg)
    then show ?thesis
      by (simp add: bF Finite fle_zero_round_signed)
  qed (simp_all add: bF double_of_int_0)
qed (cases a; simp add: double_of_int_0)+

lemma fsub_nonneg:
  "fle (double_of_int 0) b \<Longrightarrow> is_finite a \<Longrightarrow> \<not> fgt a b \<Longrightarrow> fle (double_of_int 0) (fsub b a)"
proof (cases a)
  case aF: (Finite s2 m2 e2)
  show "fle (double_of_int 0) b \<Longrightarrow> \<not> fgt a b \<Longrightarrow> ?thesis"
  proof (cases b)
    case (Finite s1 m1 e1)
    assume "\<not> fgt a b"
    then have "scaled s2 m2 e2 (min e1 e2) \<le> scaled s1 m1 e1 (min e1 e2)"
      by (simp add: fgt_def aF Finite)
    moreover have "scaled (\<not> s2) m2 e2 (min e1 e2) = - scaled s2 m2 e2 (min e1 e2)"
      by (simp add: scaled_def signed_def)
    ultimately show ?thesis
      by (simp add: fsub_def aF Finite fle_zero_round_signed)
  qed (simp_all add: aF fsub_def double_of_int_0)
qed simp_all

lemma fle_not_flt: "fle a b \<Longrightarrow> \<not> flt b a"
  by (cases a; cases b) (auto simp: min.commute)

lemma neg_not_gt_nonneg:
  "flt a (double_of_int 0) \<Longrightarrow> fle (double_of_int 0) b \<Longrightarrow> \<not> fgt a b"
proof (cases a; cases b)
  fix s1 m1 e1 s2 m2 e2
  assume a: "a = Finite s1 m1 e1" and b: "b = Finite s2 m2 e2"
    and "flt a (double_of_int 0)" "fle (double_of_int 0) b"
  then have "scaled s1 m1 e1 (min e2 e1) < 0" "0 \<le> scaled s2 m2 e2 (min e2 e1)"
    by (simp_all add: flt_Finite_zero fle_zero_Finite scaled_neg scaled_nonneg)
  then show "\<not> fgt a b"
    by (simp add: fgt_def a b)
qed (simp_all add: fgt_def double_of_int_0)

lemma flt_zero_fneg: "flt A (double_of_int 0) \<Longrightarrow> flt (double_of_int 0) (fneg A)"
proof (cases A)
  case (Finite s m e)
  assume "flt A (double_of_int 0)"
  then have "signed s m < 0"
    by (simp add: Finite flt_Finite_zero)
  then have "0 < signed (\<not> s) m"
    by (simp add: signed_def split: if_splits)
  then show ?thesis
    by (simp add: Finite flt_zero_Finite)
qed (simp_all add: double_of_int_0)

text \<open>
  Rounding is exact on the doubles: a value \<open>a * 2^e0\<close> that equals a double in normal form
  rounds to that double.  Hence \<open>(x + y) - y\<close> is \<open>x\<close> again when \<open>x + y\<close> was exact.
\<close>

lemma powi_split: "e0 \<le> e \<Longrightarrow> (2::rat) powi e = 2 ^ nat (e - e0) * 2 powi e0"
proof -
  assume le: "e0 \<le> e"
  have "(2::rat) powi ((e - e0) + e0) = 2 powi (e - e0) * 2 powi e0"
    by (rule power_int_add) simp
  moreover have "(2::rat) powi (e - e0) = 2 ^ nat (e - e0)"
    using le by (simp add: power_int_def)
  ultimately show ?thesis
    by simp
qed

lemma dyadic_le:
  assumes "(of_nat a :: rat) * 2 powi e0 = of_nat m * 2 powi e" and "e0 \<le> e"
  shows "a = m * 2 ^ nat (e - e0)"
proof -
  from assms have "(of_nat a :: rat) * 2 powi e0 = (of_nat m * 2 ^ nat (e - e0)) * 2 powi e0"
    by (simp add: powi_split [of e0 e])
  then have "(of_nat a :: rat) = of_nat (m * 2 ^ nat (e - e0))"
    by simp
  then show ?thesis
    by (simp only: of_nat_eq_iff)
qed

lemma scaled_valof:
  "e0 \<le> e \<Longrightarrow> of_int (scaled s m e e0) * 2 powi e0 = valof (Finite s m e)"
  by (simp add: scaled_def powi_split [of e0 e])

lemma dyadic_bitlen:
  assumes "(of_nat a :: rat) * 2 powi e0 = of_nat m * 2 powi e" and "0 < a" and "0 < m"
  shows "e0 + bitlen (int a) = e + bitlen (int m)"
proof (cases "e0 \<le> e")
  case True
  with assms(1) have "a = m * 2 ^ nat (e - e0)"
    by (rule dyadic_le)
  then have "bitlen (int a) = bitlen (int m * 2 ^ nat (e - e0))"
    by simp
  also have "\<dots> = bitlen (int m) + int (nat (e - e0))"
    using assms(3) by (intro bitlen_pow2) simp
  finally show ?thesis
    using True by simp
next
  case False
  then have le: "e \<le> e0" by simp
  from assms(1) have "(of_nat m :: rat) * 2 powi e = of_nat a * 2 powi e0"
    by simp
  then have "m = a * 2 ^ nat (e0 - e)"
    using le by (rule dyadic_le)
  then have "bitlen (int m) = bitlen (int a * 2 ^ nat (e0 - e))"
    by simp
  also have "\<dots> = bitlen (int a) + int (nat (e0 - e))"
    using assms(2) by (intro bitlen_pow2) simp
  finally show ?thesis
    using le by simp
qed

lemma bitlen_53: "2 ^ 52 \<le> m \<Longrightarrow> m < 2 ^ 53 \<Longrightarrow> bitlen (int m) = 53" for m :: nat
proof -
  assume lo: "2 ^ 52 \<le> m" and hi: "m < 2 ^ 53"
  have "bitlen (int m) \<le> 53"
    using hi by (simp add: bitlen_le_iff_power)
  moreover have "53 \<le> bitlen (int m)"
    using lo by (simp add: bitlen_ge_iff_power)
  ultimately show ?thesis by simp
qed

lemma bitlen_le_53: "m < 2 ^ 53 \<Longrightarrow> bitlen (int m) \<le> 53" for m :: nat
  by (simp add: bitlen_le_iff_power)

lemma round_exact:
  assumes m: "0 < m" "m < 2 ^ 53" "- 1074 \<le> e" "e \<le> 971" "2 ^ 52 \<le> m \<or> e = - 1074"
    and a: "0 < a" and eq: "(of_nat a :: rat) * 2 powi e0 = of_nat m * 2 powi e"
  shows "round_double s a e0 = Finite s m e"
proof -
  have "e0 + bitlen (int a) = e + bitlen (int m)"
    using eq a m(1) by (rule dyadic_bitlen)
  moreover have "max (e + bitlen (int m) - 53) (- 1074) = e"
    using m bitlen_53 [of m] bitlen_le_53 [of m] by auto
  ultimately have ulp: "ulp_exponent a e0 = e"
    by (simp add: ulp_exponent_def)
  have sig: "significand a e0 e = m"
  proof (cases "e \<le> e0")
    case True
    from eq have "(of_nat m :: rat) * 2 powi e = of_nat a * 2 powi e0"
      by simp
    then have "m = a * 2 ^ nat (e0 - e)"
      using True by (rule dyadic_le)
    with True show ?thesis
      by (simp add: significand_def)
  next
    case False
    then have lt: "e0 < e" by simp
    then have "a = m * 2 ^ nat (e - e0)"
      using eq by (intro dyadic_le) simp_all
    moreover have "0 < (2::nat) ^ (nat (e - e0) - 1)"
      by simp
    ultimately show ?thesis
      using lt by (simp add: significand_def ties_to_even_def)
  qed
  show ?thesis
    using m by (simp add: round_double_def ulp sig pack_def)
qed

lemma round_signed_exact:
  assumes m: "0 < m" "m < 2 ^ 53" "- 1074 \<le> e" "e \<le> 971" "2 ^ 52 \<le> m \<or> e = - 1074"
    and eq: "(of_int i :: rat) * 2 powi e0 = of_int (signed s m) * 2 powi e"
  shows "round_signed z i e0 = Finite s m e"
proof -
  have pos: "(0::rat) < 2 powi e0" "(0::rat) < 2 powi e"
    by simp_all
  then have npos: "\<not> (2::rat) powi e0 < 0" "\<not> (2::rat) powi e < 0"
    by (simp_all add: not_less less_imp_le)
  have "((of_int i :: rat) * 2 powi e0 < 0) = (i < 0)"
    using pos(1) npos(1) by (simp add: mult_less_0_iff)
  moreover have "((of_int (signed s m) :: rat) * 2 powi e < 0) = s"
    using pos(2) npos(2) m(1) by (simp add: mult_less_0_iff signed_def)
  ultimately have sign: "(i < 0) = s"
    using eq by simp
  have "\<bar>(of_int i :: rat) * 2 powi e0\<bar> = \<bar>of_int (signed s m) * 2 powi e\<bar>"
    using eq by simp
  then have abs: "(of_nat (nat \<bar>i\<bar>) :: rat) * 2 powi e0 = of_nat m * 2 powi e"
    by (simp add: abs_mult signed_def split: if_splits)
  from m(1) abs have "i \<noteq> 0"
    by auto
  then have "0 < nat \<bar>i\<bar>"
    by simp
  with m have "round_double s (nat \<bar>i\<bar>) e0 = Finite s m e"
    using abs by (intro round_exact)
  with \<open>i \<noteq> 0\<close> sign show ?thesis
    by (simp add: round_signed_def)
qed

lemma fsub_fadd_exact:
  assumes B: "is_double B" and S: "is_finite (fadd B A)"
    and exact: "valof (fadd B A) = valof B + valof A"
  shows "feq (fsub (fadd B A) A) B"
proof -
  from S obtain s1 m1 e1 s2 m2 e2 where b: "B = Finite s1 m1 e1" and a: "A = Finite s2 m2 e2"
    by (cases B; cases A) (auto split: if_splits)
  from S obtain s3 m3 e3 where s: "fadd B A = Finite s3 m3 e3"
    by (cases "fadd B A") auto
  define e0 where "e0 = min e3 e2"
  define i where "i = scaled s3 m3 e3 e0 + scaled (\<not> s2) m2 e2 e0"
  have F: "fsub (fadd B A) A = round_signed (s3 \<and> \<not> s2) i e0"
    unfolding fsub_def s by (simp add: a i_def e0_def)
  have v3: "(of_int (scaled s3 m3 e3 e0) :: rat) * 2 powi e0 = valof (Finite s3 m3 e3)"
    by (rule scaled_valof) (simp add: e0_def)
  have v2: "(of_int (scaled s2 m2 e2 e0) :: rat) * 2 powi e0 = valof (Finite s2 m2 e2)"
    by (rule scaled_valof) (simp add: e0_def)
  have "scaled (\<not> s2) m2 e2 e0 = - scaled s2 m2 e2 e0"
    by (simp add: scaled_def signed_def)
  then have "(of_int i :: rat) * 2 powi e0 =
      of_int (scaled s3 m3 e3 e0) * 2 powi e0 - of_int (scaled s2 m2 e2 e0) * 2 powi e0"
    by (simp add: i_def algebra_simps)
  also have "\<dots> = valof (Finite s3 m3 e3) - valof (Finite s2 m2 e2)"
    by (simp only: v3 v2)
  also have "\<dots> = valof B"
    using exact unfolding s by (simp add: a)
  finally have val: "(of_int i :: rat) * 2 powi e0 = of_int (signed s1 m1) * 2 powi e1"
    by (simp add: b)
  show ?thesis
  proof (cases "m1 = 0")
    case True
    then have "signed s1 m1 = 0"
      by (simp add: signed_def)
    with val have "i = 0"
      by simp
    with True show ?thesis
      unfolding F by (simp add: b round_signed_def scaled_def signed_def)
  next
    case False
    with B have "0 < m1" "m1 < 2 ^ 53" "- 1074 \<le> e1" "e1 \<le> 971" "2 ^ 52 \<le> m1 \<or> e1 = - 1074"
      by (simp_all add: b)
    then have "round_signed (s3 \<and> \<not> s2) i e0 = Finite s1 m1 e1"
      using val by (rule round_signed_exact)
    then show ?thesis
      unfolding F by (simp add: b)
  qed
qed

text \<open>
  The comparisons of finite doubles are those of their values.  Adding a positive amount
  to a double that is not negative never gives less: the exact sum is not less, and
  rounding does not go below a double.  When the sum is exact, it gives more.
\<close>

lemma valof_scaled_min1:
  "valof (Finite s1 m1 e1) = of_int (scaled s1 m1 e1 (min e1 e2)) * 2 powi (min e1 e2)"
  by (rule scaled_valof [symmetric]) simp

lemma valof_scaled_min2:
  "valof (Finite s2 m2 e2) = of_int (scaled s2 m2 e2 (min e1 e2)) * 2 powi (min e1 e2)"
  by (rule scaled_valof [symmetric]) simp

lemma fle_valof:
  "fle (Finite s1 m1 e1) (Finite s2 m2 e2) \<longleftrightarrow> valof (Finite s1 m1 e1) \<le> valof (Finite s2 m2 e2)"
proof -
  have "(0::rat) < 2 powi (min e1 e2)" by simp
  then show ?thesis
    unfolding valof_scaled_min1 [of s1 m1 e1 e2] valof_scaled_min2 [of s2 m2 e2 e1]
    by (simp add: mult_le_cancel_right_pos)
qed

lemma flt_valof:
  "flt (Finite s1 m1 e1) (Finite s2 m2 e2) \<longleftrightarrow> valof (Finite s1 m1 e1) < valof (Finite s2 m2 e2)"
proof -
  have "(0::rat) < 2 powi (min e1 e2)" by simp
  then show ?thesis
    unfolding valof_scaled_min1 [of s1 m1 e1 e2] valof_scaled_min2 [of s2 m2 e2 e1]
    by (simp add: mult_less_cancel_right_pos)
qed

lemma valof_fneg: "valof (fneg x) = - valof x"
  by (cases x) (simp_all add: signed_def)

lemma exact_sum_increase:
  assumes pos: "flt (double_of_int 0) y" and ex: "exact_sum x y"
  shows "flt x (fadd x y)"
proof -
  from ex have fin: "is_finite (fadd x y)" and val: "valof (fadd x y) = valof x + valof y"
    by (simp_all add: exact_sum_def)
  from fin obtain s1 m1 e1 s2 m2 e2 where x: "x = Finite s1 m1 e1" and y: "y = Finite s2 m2 e2"
    by (cases x; cases y) (auto split: if_splits)
  from fin obtain s3 m3 e3 where s: "fadd x y = Finite s3 m3 e3"
    by (cases "fadd x y") auto
  from pos have "valof (double_of_int 0) < valof y"
    unfolding y double_of_int_0 by (simp only: flt_valof)
  then have "0 < valof y"
    by (simp add: double_of_int_0 signed_def)
  with val have "valof x < valof (fadd x y)"
    by simp
  then show ?thesis
    unfolding s unfolding x by (simp only: flt_valof)
qed

lemma ties_to_even_ge: "q \<le> ties_to_even q r h"
  by (simp add: ties_to_even_def)

lemma significand_ge:
  assumes le: "m1 * 2 ^ nat (e1 - e0) \<le> a" and e: "e0 \<le> e1"
    and m: "m1 < 2 ^ 53" and lo: "- 1074 \<le> e1"
  shows "(of_nat m1 :: rat) * 2 powi e1
           \<le> of_nat (significand a e0 (ulp_exponent a e0)) * 2 powi (ulp_exponent a e0)"
proof -
  define t where "t = ulp_exponent a e0"
  have pos: "(0::rat) \<le> 2 powi t" "(0::rat) \<le> 2 powi e0" "(0::rat) \<le> 2 powi e1"
    by simp_all
  show ?thesis
    unfolding t_def [symmetric]
  proof (cases "t \<le> e0")
    case True
    have "(of_nat m1 :: rat) * 2 powi e1 = of_nat (m1 * 2 ^ nat (e1 - e0)) * 2 powi e0"
      by (simp add: powi_split [OF e])
    also have "\<dots> \<le> of_nat a * 2 powi e0"
      using le pos(2) by (intro mult_right_mono) (simp_all only: of_nat_le_iff)
    also have "\<dots> = of_nat (a * 2 ^ nat (e0 - t)) * 2 powi t"
      by (simp add: powi_split [OF True])
    finally show "(of_nat m1 :: rat) * 2 powi e1 \<le> of_nat (significand a e0 t) * 2 powi t"
      using True by (simp add: significand_def)
  next
    case False
    then have lt: "e0 < t" by simp
    define k where "k = nat (t - e0)"
    define q where "q = a div 2 ^ k"
    have sig: "q \<le> significand a e0 t"
      using lt by (simp add: significand_def q_def k_def ties_to_even_ge)
    have "(of_nat m1 :: rat) * 2 powi e1 \<le> of_nat q * 2 powi t"
    proof (cases "t \<le> e1")
      case True
      have "nat (e1 - e0) = nat (e1 - t) + k"
        using True lt by (simp add: k_def)
      then have "m1 * 2 ^ nat (e1 - e0) = (m1 * 2 ^ nat (e1 - t)) * 2 ^ k"
        by (simp add: power_add)
      with le have "(m1 * 2 ^ nat (e1 - t)) * 2 ^ k \<le> a"
        by simp
      then have "m1 * 2 ^ nat (e1 - t) \<le> q"
        unfolding q_def by (simp add: less_eq_div_iff_mult_less_eq)
      then have "(of_nat (m1 * 2 ^ nat (e1 - t)) :: rat) * 2 powi t \<le> of_nat q * 2 powi t"
        using pos(1) by (intro mult_right_mono) (simp_all only: of_nat_le_iff)
      then show ?thesis
        by (simp add: powi_split [OF True])
    next
      case False
      then have e1t: "e1 + 1 \<le> t" by simp
      with lo have "t \<noteq> - 1074" by simp
      then have "t = e0 + bitlen (int a) - 53"
        unfolding t_def ulp_exponent_def by (simp add: max_def split: if_splits)
      then have "53 + int k \<le> bitlen (int a)"
        using lt by (simp add: k_def)
      then have "(2::int) ^ (nat (53 + int k) - 1) \<le> int a"
        by (simp add: bitlen_ge_iff_power)
      moreover have "nat (53 + int k) - 1 = 52 + k"
        by simp
      ultimately have "(2::int) ^ (52 + k) \<le> int a"
        by simp
      then have "int (2 ^ 52 * 2 ^ k) \<le> int a"
        by (simp add: power_add)
      then have "2 ^ 52 * 2 ^ k \<le> a"
        by (simp only: of_nat_le_iff)
      then have q52: "2 ^ 52 \<le> q"
        unfolding q_def by (simp add: less_eq_div_iff_mult_less_eq)
      have "(of_nat (2 ^ 52) :: rat) \<le> of_nat q"
        using q52 by (simp only: of_nat_le_iff)
      then have q52r: "(2::rat) ^ 52 \<le> of_nat q"
        by simp
      have "(of_nat m1 :: rat) \<le> of_nat (2 ^ 53)"
        using m by (simp only: of_nat_le_iff less_imp_le)
      then have "(of_nat m1 :: rat) \<le> 2 ^ 53"
        by simp
      then have "(of_nat m1 :: rat) * 2 powi e1 \<le> 2 ^ 53 * 2 powi e1"
        using pos(3) by (rule mult_right_mono)
      also have "\<dots> = 2 ^ 52 * 2 powi (e1 + 1)"
        by (simp add: power_int_add_1)
      also have "\<dots> \<le> 2 ^ 52 * 2 powi t"
        using e1t by (intro mult_left_mono power_int_increasing) simp_all
      also have "\<dots> \<le> of_nat q * 2 powi t"
        using q52r pos(1) by (rule mult_right_mono)
      finally show ?thesis .
    qed
    also have "\<dots> \<le> of_nat (significand a e0 t) * 2 powi t"
      using sig pos(1) by (intro mult_right_mono) (simp_all only: of_nat_le_iff)
    finally show "(of_nat m1 :: rat) * 2 powi e1 \<le> of_nat (significand a e0 t) * 2 powi t" .
  qed
qed

lemma pack_False_cases:
  "pack False m t = Infinity False \<or>
   (\<exists>m' t'. pack False m t = Finite False m' t' \<and>
            valof (Finite False m' t') = of_nat m * 2 powi t)"
proof (cases "m = 2 ^ 53")
  case True
  have "(2::rat) ^ 52 * 2 powi (t + 1) = 2 ^ 53 * 2 powi t"
    by (simp add: power_int_add_1)
  with True show ?thesis
    by (simp add: pack_def signed_def)
next
  case False
  then show ?thesis
    by (simp add: pack_def signed_def)
qed

lemma fadd_pos_ge:
  assumes dbl: "is_double x" and nonneg: "fle (double_of_int 0) x"
    and pos: "flt (double_of_int 0) y"
  shows "fle x (fadd x y)"
proof (cases x)
  case xF: (Finite s1 m1 e1)
  show ?thesis
  proof (cases y)
    case yF: (Finite s2 m2 e2)
    define e0 where "e0 = min e1 e2"
    define i where "i = scaled s1 m1 e1 e0 + scaled s2 m2 e2 e0"
    from nonneg have x0: "0 \<le> signed s1 m1"
      by (simp add: xF fle_zero_Finite)
    from pos have y0: "0 < signed s2 m2"
      by (simp add: yF flt_zero_Finite)
    have sx: "0 \<le> scaled s1 m1 e1 e0" and sy: "0 < scaled s2 m2 e2 e0"
      using x0 y0 by (simp_all add: scaled_nonneg scaled_pos)
    then have ipos: "0 < i"
      by (simp add: i_def)
    have sum: "fadd x y = pack False (significand (nat i) e0 (ulp_exponent (nat i) e0))
                           (ulp_exponent (nat i) e0)"
      using ipos by (simp add: xF yF i_def e0_def round_signed_def round_double_def)
    have bound: "valof x \<le> of_nat (significand (nat i) e0 (ulp_exponent (nat i) e0))
                            * 2 powi (ulp_exponent (nat i) e0)"
    proof (cases "m1 = 0")
      case True
      then show ?thesis
        by (simp add: xF signed_def)
    next
      case False
      with x0 have s1: "\<not> s1"
        by (auto simp: signed_def split: if_splits)
      from False dbl have m: "m1 < 2 ^ 53" and lo: "- 1074 \<le> e1"
        by (simp_all add: xF)
      have "int (m1 * 2 ^ nat (e1 - e0)) = scaled s1 m1 e1 e0"
        using s1 by (simp add: scaled_def signed_def)
      also have "\<dots> \<le> i"
        using sy by (simp add: i_def)
      finally have "int (m1 * 2 ^ nat (e1 - e0)) \<le> i" .
      then have "m1 * 2 ^ nat (e1 - e0) \<le> nat i"
        by (simp only: le_nat_iff [OF less_imp_le [OF ipos]])
      moreover have "e0 \<le> e1"
        by (simp add: e0_def)
      ultimately have "(of_nat m1 :: rat) * 2 powi e1
           \<le> of_nat (significand (nat i) e0 (ulp_exponent (nat i) e0))
               * 2 powi (ulp_exponent (nat i) e0)"
        using m lo by (rule significand_ge)
      then show ?thesis
        using s1 by (simp add: xF signed_def)
    qed
    from pack_False_cases [of "significand (nat i) e0 (ulp_exponent (nat i) e0)"
        "ulp_exponent (nat i) e0"]
    show ?thesis
    proof
      assume "pack False (significand (nat i) e0 (ulp_exponent (nat i) e0))
                (ulp_exponent (nat i) e0) = Infinity False"
      then show ?thesis
        unfolding sum by (simp add: xF)
    next
      assume "\<exists>m' t'. pack False (significand (nat i) e0 (ulp_exponent (nat i) e0))
                 (ulp_exponent (nat i) e0) = Finite False m' t' \<and>
               valof (Finite False m' t') =
                 of_nat (significand (nat i) e0 (ulp_exponent (nat i) e0))
                   * 2 powi (ulp_exponent (nat i) e0)"
      then obtain m' t' where r: "fadd x y = Finite False m' t'"
        and v: "valof (Finite False m' t') =
                 of_nat (significand (nat i) e0 (ulp_exponent (nat i) e0))
                   * 2 powi (ulp_exponent (nat i) e0)"
        by (auto simp: sum)
      from bound v have "valof (Finite s1 m1 e1) \<le> valof (Finite False m' t')"
        by (simp add: xF)
      then show ?thesis
        unfolding r unfolding xF by (simp only: fle_valof)
    qed
  next
    case (Infinity s2)
    with pos show ?thesis
      by (simp add: xF double_of_int_0)
  next
    case NaN
    with pos show ?thesis
      by (simp add: double_of_int_0)
  qed
next
  case xI: (Infinity s1)
  with nonneg have "\<not> s1"
    by (simp add: double_of_int_0)
  with pos show ?thesis
    by (cases y) (simp_all add: xI double_of_int_0)
next
  case NaN
  with nonneg show ?thesis
    by (simp add: double_of_int_0)
qed

section \<open>Properties of Account\<close>

text \<open>
  C1.  A withdrawal of an amount greater than the balance is rejected: \<open>withdraw\<close> returns
  false and the account is the one before the call, so the balance is unchanged and nothing
  is appended to the history.
\<close>

theorem withdraw_rejected_unchanged:
  assumes "fgt A (balance acc)"
  shows "Account_withdraw now A acc = (False, acc)"
  using assms by (simp add: Account_withdraw_def)

theorem withdraw_rejected_unchanged_witness:
  "fgt (double_of_int 2000) (balance (Account_new ''ACC1001'' (double_of_int 1500)))
   \<and> Account_withdraw ''Tue Nov  3 10:11:12 2026'' (double_of_int 2000)
        (Account_new ''ACC1001'' (double_of_int 1500))
      = (False, Account_new ''ACC1001'' (double_of_int 1500))"
proof -
  have h: "fgt (double_of_int 2000) (balance (Account_new ''ACC1001'' (double_of_int 1500)))"
    by (simp add: Account_new_def double_eval)
  from h withdraw_rejected_unchanged [OF h] show ?thesis
    by simp
qed

text \<open>
  C3.  \<open>deposit\<close> has no failing path and checks nothing about the amount (zero, a negative
  amount, an infinity and NaN are taken alike): it adds the amount to the balance and
  appends one \<open>DEPOSIT\<close> transaction with that amount, and changes nothing else.
\<close>

theorem deposit_adds_and_logs:
  "Account_deposit now amt acc =
     acc\<lparr>balance := fadd (balance acc) amt,
         transactions := transactions acc @ [\<lparr>type = DEPOSIT, amount = amt, timestamp = now\<rparr>]\<rparr>"
  by (simp add: Account_deposit_def Transaction_new_def)

theorem deposit_adds_and_logs_witness:
  "Account_deposit ''Tue Nov  3 10:11:12 2026'' (double_of_int 500)
     (Account_new ''ACC1001'' (double_of_int 1000)) =
   \<lparr>accountNumber = ''ACC1001'', balance = double_of_int 1500,
    transactions = [\<lparr>type = DEPOSIT, amount = double_of_int 500,
                     timestamp = ''Tue Nov  3 10:11:12 2026''\<rparr>]\<rparr>"
proof -
  have "fadd (double_of_int 1000) (double_of_int 500) = double_of_int 1500"
    by (simp add: double_eval)
  then show ?thesis
    using deposit_adds_and_logs [of "''Tue Nov  3 10:11:12 2026''" "double_of_int 500"
        "Account_new ''ACC1001'' (double_of_int 1000)"]
    by (simp add: Account_new_def)
qed

text \<open>
  C10 (as amended).  On a balance that is not negative, a withdrawal of a negative amount
  \<open>A\<close> passes the only check (\<open>A > balance\<close> is false): it returns true, appends a
  \<open>WITHDRAW\<close> transaction with the negative amount, and sets the balance to
  \<open>balance - A\<close> as \<open>double\<close> arithmetic computes it, which is \<open>balance + (-A)\<close> with
  \<open>-A > 0\<close>, rounded once.  The new balance is never less than the old one (a double of
  the hardware, \<open>is_double\<close>), and it is greater, by exactly \<open>|A|\<close>, whenever that sum is
  computed exactly.
\<close>

theorem withdraw_negative_amount:
  assumes "fle (double_of_int 0) (balance acc)" and "flt A (double_of_int 0)"
  shows "Account_withdraw now A acc =
           (True, acc\<lparr>balance := fsub (balance acc) A,
                          transactions := transactions acc @
                            [\<lparr>type = WITHDRAW, amount = A, timestamp = now\<rparr>]\<rparr>)
         \<and> fsub (balance acc) A = fadd (balance acc) (fneg A)
         \<and> flt (double_of_int 0) (fneg A)
         \<and> (is_double (balance acc) \<longrightarrow> fle (balance acc) (fsub (balance acc) A))
         \<and> (exact_sum (balance acc) (fneg A) \<longrightarrow>
               flt (balance acc) (fsub (balance acc) A)
               \<and> valof (fsub (balance acc) A) = valof (balance acc) - valof A)"
proof -
  have no: "\<not> fgt A (balance acc)"
    using assms by (simp add: neg_not_gt_nonneg)
  have pos: "flt (double_of_int 0) (fneg A)"
    using assms(2) by (rule flt_zero_fneg)
  have ge: "is_double (balance acc) \<Longrightarrow> fle (balance acc) (fsub (balance acc) A)"
    unfolding fsub_def using assms(1) pos by (intro fadd_pos_ge)
  have gt: "exact_sum (balance acc) (fneg A) \<Longrightarrow> flt (balance acc) (fsub (balance acc) A)"
    unfolding fsub_def using pos by (rule exact_sum_increase)
  have val: "exact_sum (balance acc) (fneg A) \<Longrightarrow>
      valof (fsub (balance acc) A) = valof (balance acc) - valof A"
    by (simp add: exact_sum_def fsub_def valof_fneg)
  from no pos ge gt val show ?thesis
    by (simp add: Account_withdraw_def Transaction_new_def fsub_def)
qed

theorem withdraw_negative_amount_witness:
  "fle (double_of_int 0) (balance (Account_new ''ACC1001'' (double_of_int 1000)))
   \<and> flt (double_of_int (- 200)) (double_of_int 0)
   \<and> is_double (balance (Account_new ''ACC1001'' (double_of_int 1000)))
   \<and> exact_sum (balance (Account_new ''ACC1001'' (double_of_int 1000)))
         (fneg (double_of_int (- 200)))
   \<and> Account_withdraw ''Tue Nov  3 10:11:12 2026'' (double_of_int (- 200))
        (Account_new ''ACC1001'' (double_of_int 1000)) =
      (True, \<lparr>accountNumber = ''ACC1001'', balance = double_of_int 1200,
              transactions = [\<lparr>type = WITHDRAW, amount = double_of_int (- 200),
                               timestamp = ''Tue Nov  3 10:11:12 2026''\<rparr>]\<rparr>)
   \<and> fle (double_of_int 1000) (double_of_int 1200)
   \<and> flt (double_of_int 1000) (double_of_int 1200)"
proof -
  have h1: "fle (double_of_int 0) (balance (Account_new ''ACC1001'' (double_of_int 1000)))"
    by (simp add: Account_new_def double_eval)
  have h2: "flt (double_of_int (- 200)) (double_of_int 0)"
    by (simp add: double_eval)
  have h3: "is_double (balance (Account_new ''ACC1001'' (double_of_int 1000)))"
    by (simp add: Account_new_def double_eval)
  have h4: "exact_sum (balance (Account_new ''ACC1001'' (double_of_int 1000)))
         (fneg (double_of_int (- 200)))"
    by (simp add: Account_new_def exact_sum_def double_eval)
  have r: "fsub (double_of_int 1000) (double_of_int (- 200)) = double_of_int 1200"
    by (simp add: double_eval)
  note t = withdraw_negative_amount [OF h1 h2, of "''Tue Nov  3 10:11:12 2026''"]
  from t have w: "Account_withdraw ''Tue Nov  3 10:11:12 2026'' (double_of_int (- 200))
        (Account_new ''ACC1001'' (double_of_int 1000)) =
      (True, Account_new ''ACC1001'' (double_of_int 1000)
          \<lparr>balance := fsub (balance (Account_new ''ACC1001'' (double_of_int 1000)))
                         (double_of_int (- 200)),
           transactions := transactions (Account_new ''ACC1001'' (double_of_int 1000)) @
             [\<lparr>type = WITHDRAW, amount = double_of_int (- 200),
               timestamp = ''Tue Nov  3 10:11:12 2026''\<rparr>]\<rparr>)"
    by (rule conjunct1)
  from t h3 have ge: "fle (balance (Account_new ''ACC1001'' (double_of_int 1000)))
      (fsub (balance (Account_new ''ACC1001'' (double_of_int 1000))) (double_of_int (- 200)))"
    by blast
  from t h4 have gt: "flt (balance (Account_new ''ACC1001'' (double_of_int 1000)))
      (fsub (balance (Account_new ''ACC1001'' (double_of_int 1000))) (double_of_int (- 200)))"
    by blast
  from h1 h2 h3 h4 w ge gt show ?thesis
    by (simp add: Account_new_def r)
qed

text \<open>
  C10 as stated, with the balance increased by \<open>|A|\<close> for every negative \<open>A\<close>, fails: an
  amount that is small against the balance is rounded away.  On the balance \<open>1000\<close> the
  withdrawal of \<open>-2^-50\<close> (the double \<open>-(2^52) * 2^-102\<close>) succeeds and is logged, and
  the balance is \<open>1000\<close> as before.
\<close>

theorem withdraw_negative_amount_counterexample:
  "is_double (double_of_int 1000) \<and> is_double (Finite True (2 ^ 52) (- 102))
   \<and> fle (double_of_int 0) (balance (Account_new ''ACC1001'' (double_of_int 1000)))
   \<and> flt (Finite True (2 ^ 52) (- 102)) (double_of_int 0)
   \<and> Account_withdraw ''Tue Nov  3 10:11:12 2026'' (Finite True (2 ^ 52) (- 102))
        (Account_new ''ACC1001'' (double_of_int 1000)) =
      (True, \<lparr>accountNumber = ''ACC1001'', balance = double_of_int 1000,
              transactions = [\<lparr>type = WITHDRAW, amount = Finite True (2 ^ 52) (- 102),
                               timestamp = ''Tue Nov  3 10:11:12 2026''\<rparr>]\<rparr>)
   \<and> \<not> flt (balance (Account_new ''ACC1001'' (double_of_int 1000)))
            (balance (snd (Account_withdraw ''Tue Nov  3 10:11:12 2026''
               (Finite True (2 ^ 52) (- 102)) (Account_new ''ACC1001'' (double_of_int 1000)))))"
  by (simp add: Account_new_def Account_withdraw_def Transaction_new_def double_eval)

text \<open>One call keeps a balance that is not negative, when a deposited amount is not negative.\<close>

lemma Account_call_nonneg:
  assumes "nonneg_deposit c" and "fle (double_of_int 0) (balance acc)"
  shows "fle (double_of_int 0) (balance (Account_call c acc))"
proof (cases c)
  case (CallDeposit now amt)
  with assms show ?thesis
    by (simp add: Account_deposit_def fadd_nonneg)
next
  case (CallWithdraw now amt)
  with assms show ?thesis
    by (simp add: Account_withdraw_def fsub_nonneg)
qed

text \<open>
  C2 (as amended).  From a balance that is not negative, after any sequence of deposits and
  withdrawals whose amounts are real numbers, the deposited ones not negative, the balance
  is not negative.
\<close>

theorem balance_never_negative:
  assumes "list_all nonneg_deposit cs" and "fle (double_of_int 0) (balance acc)"
  shows "fle (double_of_int 0) (balance (Account_calls cs acc))"
  using assms
proof (induction cs arbitrary: acc)
  case Nil
  then show ?case by simp
next
  case (Cons c cs)
  then show ?case by (simp add: Account_call_nonneg)
qed

theorem balance_never_negative_witness:
  "list_all nonneg_deposit
     [CallDeposit ''Tue Nov  3 10:11:12 2026'' (double_of_int 500),
      CallWithdraw ''Tue Nov  3 10:11:13 2026'' (double_of_int 2000),
      CallWithdraw ''Tue Nov  3 10:11:14 2026'' (double_of_int (- 200)),
      CallWithdraw ''Tue Nov  3 10:11:15 2026'' (double_of_int 1700)]
   \<and> fle (double_of_int 0) (balance (Account_new ''ACC1001'' (double_of_int 1000)))
   \<and> fle (double_of_int 0) (balance (Account_calls
        [CallDeposit ''Tue Nov  3 10:11:12 2026'' (double_of_int 500),
         CallWithdraw ''Tue Nov  3 10:11:13 2026'' (double_of_int 2000),
         CallWithdraw ''Tue Nov  3 10:11:14 2026'' (double_of_int (- 200)),
         CallWithdraw ''Tue Nov  3 10:11:15 2026'' (double_of_int 1700)]
        (Account_new ''ACC1001'' (double_of_int 1000))))"
proof -
  have h1: "list_all nonneg_deposit
     [CallDeposit ''Tue Nov  3 10:11:12 2026'' (double_of_int 500),
      CallWithdraw ''Tue Nov  3 10:11:13 2026'' (double_of_int 2000),
      CallWithdraw ''Tue Nov  3 10:11:14 2026'' (double_of_int (- 200)),
      CallWithdraw ''Tue Nov  3 10:11:15 2026'' (double_of_int 1700)]"
    by (simp add: double_eval)
  have h2: "fle (double_of_int 0) (balance (Account_new ''ACC1001'' (double_of_int 1000)))"
    by (simp add: Account_new_def double_eval)
  from h1 h2 balance_never_negative [OF h1 h2] show ?thesis
    by (intro conjI)
qed

text \<open>
  C2 as stated, with every real number allowed as an amount, fails: \<open>deposit\<close> does not
  check its amount, and depositing \<open>-1\<close> on a balance of \<open>0\<close> leaves \<open>-1\<close>.
\<close>

theorem balance_never_negative_counterexample:
  "fle (double_of_int 0) (balance (Account_new ''ACC1001'' (double_of_int 0)))
   \<and> flt (balance (Account_calls [CallDeposit ''Tue Nov  3 10:11:12 2026'' (double_of_int (- 1))]
                    (Account_new ''ACC1001'' (double_of_int 0))))
          (double_of_int 0)"
  by (simp add: Account_new_def Account_deposit_def double_eval)

text \<open>
  C7 (as amended).  When \<open>A \<le> balance\<close> holds before each of the two calls, \<open>deposit(A)\<close>
  followed by \<open>withdraw(A)\<close> succeeds, the history gains exactly a \<open>DEPOSIT\<close> and then a
  \<open>WITHDRAW\<close> entry, both with amount \<open>A\<close>, and the final balance is \<open>(balance + A) - A\<close>
  as \<open>double\<close> arithmetic computes it; it equals the initial balance whenever the sum
  \<open>balance + A\<close> is computed exactly.
\<close>

theorem deposit_then_withdraw:
  assumes "fle A (balance acc)" and "fle A (fadd (balance acc) A)"
  shows "Account_withdraw t2 A (Account_deposit t1 A acc) =
           (True, acc\<lparr>balance := fsub (fadd (balance acc) A) A,
                          transactions := transactions acc @
                            [\<lparr>type = DEPOSIT, amount = A, timestamp = t1\<rparr>,
                             \<lparr>type = WITHDRAW, amount = A, timestamp = t2\<rparr>]\<rparr>)
         \<and> (is_double (balance acc) \<and> exact_sum (balance acc) A
              \<longrightarrow> feq (fsub (fadd (balance acc) A) A) (balance acc))"
proof -
  have "\<not> fgt A (fadd (balance acc) A)"
    using assms(2) by (simp add: fgt_def fle_not_flt)
  then show ?thesis
    by (simp add: Account_withdraw_def Account_deposit_def Transaction_new_def
        exact_sum_def fsub_fadd_exact)
qed

theorem deposit_then_withdraw_witness:
  "fle (double_of_int 500) (balance (Account_new ''ACC1001'' (double_of_int 1000)))
   \<and> fle (double_of_int 500)
         (fadd (balance (Account_new ''ACC1001'' (double_of_int 1000))) (double_of_int 500))
   \<and> is_double (balance (Account_new ''ACC1001'' (double_of_int 1000)))
   \<and> exact_sum (balance (Account_new ''ACC1001'' (double_of_int 1000))) (double_of_int 500)
   \<and> Account_withdraw ''Tue Nov  3 10:11:13 2026'' (double_of_int 500)
        (Account_deposit ''Tue Nov  3 10:11:12 2026'' (double_of_int 500)
           (Account_new ''ACC1001'' (double_of_int 1000))) =
      (True, \<lparr>accountNumber = ''ACC1001'',
              balance = fsub (fadd (double_of_int 1000) (double_of_int 500)) (double_of_int 500),
              transactions =
                [\<lparr>type = DEPOSIT, amount = double_of_int 500,
                  timestamp = ''Tue Nov  3 10:11:12 2026''\<rparr>,
                 \<lparr>type = WITHDRAW, amount = double_of_int 500,
                  timestamp = ''Tue Nov  3 10:11:13 2026''\<rparr>]\<rparr>)
   \<and> feq (fsub (fadd (double_of_int 1000) (double_of_int 500)) (double_of_int 500))
          (double_of_int 1000)"
proof -
  have h1: "fle (double_of_int 500) (balance (Account_new ''ACC1001'' (double_of_int 1000)))"
    by (simp add: Account_new_def double_eval)
  have h2: "fle (double_of_int 500)
         (fadd (balance (Account_new ''ACC1001'' (double_of_int 1000))) (double_of_int 500))"
    by (simp add: Account_new_def double_eval)
  have h3: "is_double (balance (Account_new ''ACC1001'' (double_of_int 1000)))"
    by (simp add: Account_new_def double_eval)
  have h4: "exact_sum (balance (Account_new ''ACC1001'' (double_of_int 1000))) (double_of_int 500)"
    by (simp add: Account_new_def exact_sum_def double_eval)
  from h1 h2 h3 h4 deposit_then_withdraw [OF h1 h2, of "''Tue Nov  3 10:11:13 2026''"
      "''Tue Nov  3 10:11:12 2026''"]
  show ?thesis
    by (simp add: Account_new_def)
qed

text \<open>
  C7 as stated fails: \<open>(balance + A) - A\<close> is rounded twice and need not be the initial
  balance.  With the balance \<open>0.3\<close> (the double \<open>5404319552844595 * 2^-54\<close>) and the amount
  \<open>0.1\<close> (the double \<open>7205759403792794 * 2^-56\<close>) the deposit leaves \<open>0.4\<close> and the
  withdrawal \<open>0.30000000000000004\<close> (\<open>5404319552844596 * 2^-54\<close>), which is greater than
  the initial balance.
\<close>

theorem deposit_then_withdraw_counterexample:
  "is_double (Finite False 5404319552844595 (- 54))
   \<and> is_double (Finite False 7205759403792794 (- 56))
   \<and> fle (Finite False 7205759403792794 (- 56))
         (balance (Account_new ''ACC1001'' (Finite False 5404319552844595 (- 54))))
   \<and> fle (Finite False 7205759403792794 (- 56))
         (fadd (balance (Account_new ''ACC1001'' (Finite False 5404319552844595 (- 54))))
               (Finite False 7205759403792794 (- 56)))
   \<and> balance (snd (Account_withdraw ''Tue Nov  3 10:11:13 2026'' (Finite False 7205759403792794 (- 56))
                 (Account_deposit ''Tue Nov  3 10:11:12 2026'' (Finite False 7205759403792794 (- 56))
                    (Account_new ''ACC1001'' (Finite False 5404319552844595 (- 54))))))
      = Finite False 5404319552844596 (- 54)
   \<and> \<not> feq (Finite False 5404319552844596 (- 54))
            (balance (Account_new ''ACC1001'' (Finite False 5404319552844595 (- 54))))
   \<and> flt (balance (Account_new ''ACC1001'' (Finite False 5404319552844595 (- 54))))
          (Finite False 5404319552844596 (- 54))"
  by (simp add: Account_new_def Account_deposit_def Account_withdraw_def double_eval)

section \<open>Properties of User\<close>

text \<open>
  C6.  \<open>authenticate(s)\<close> is true exactly when \<open>s\<close> is the stored PIN, compared as
  strings character by character: a string that differs in case, in added whitespace or
  in any other way gives false.
\<close>

theorem authenticate_iff_equal:
  "User_authenticate u s \<longleftrightarrow> s = pin u"
  by (auto simp: User_authenticate_def)

theorem authenticate_iff_equal_witness:
  "User_authenticate (User_new ''Alice'' ''1234'') ''1234''
   \<and> \<not> User_authenticate (User_new ''Alice'' ''1234'') ''1234 ''
   \<and> \<not> User_authenticate (User_new ''Alice'' ''abcd'') ''ABCD''"
  using authenticate_iff_equal [of "User_new ''Alice'' ''1234''" "''1234''"]
    authenticate_iff_equal [of "User_new ''Alice'' ''1234''" "''1234 ''"]
    authenticate_iff_equal [of "User_new ''Alice'' ''abcd''" "''ABCD''"]
  by (simp add: User_new_def)

section \<open>Properties of BankService\<close>

text \<open>The two \<open>addUser\<close> calls of \<open>main\<close> build the directory \<open>main_bank\<close>.\<close>

lemma main_bank_registered:
  "BankService_addUsers (map (Pair main_heap) [Some 0, Some 2]) BankService_new = Some main_bank"
  by (simp add: BankService_addUser_def deref_user_def deref_account_def main_heap_def
      main_bank_def BankService_new_def User_addAccount_def User_new_def User_getAccounts_def
      Account_new_def)

text \<open>
  C5.  For an account number that is a key of neither map, every operation that looks it
  up reports not found, follows no pointer and leaves the heap as it is: \<open>deposit\<close> and
  \<open>withdraw\<close> return false, \<open>getBalance\<close> returns the sentinel \<open>-1\<close>, and
  \<open>getUserByAccount\<close> and \<open>getAccount\<close> return \<open>nullptr\<close>.  The directory is only read.
\<close>

theorem unknown_account_not_found:
  assumes "accNum \<notin> dom (users b)" and "accNum \<notin> dom (accounts b)"
  shows "BankService_deposit now h b accNum amt = Some (False, h)
       \<and> BankService_withdraw now h b accNum amt = Some (False, h)
       \<and> BankService_getBalance h b accNum = Some (double_of_int (- 1))
       \<and> BankService_getUserByAccount b accNum = None
       \<and> BankService_getAccount b accNum = None"
proof -
  from assms have "users b accNum = None" "accounts b accNum = None"
    by auto
  then show ?thesis
    by (simp add: BankService_deposit_def BankService_withdraw_def BankService_getBalance_def
        BankService_getUserByAccount_def BankService_getAccount_def)
qed

theorem unknown_account_not_found_witness:
  "''ACC9999'' \<notin> dom (users main_bank) \<and> ''ACC9999'' \<notin> dom (accounts main_bank)
   \<and> BankService_deposit ''Tue Nov  3 10:11:12 2026'' main_heap main_bank ''ACC9999''
        (double_of_int 500) = Some (False, main_heap)
   \<and> BankService_withdraw ''Tue Nov  3 10:11:12 2026'' main_heap main_bank ''ACC9999''
        (double_of_int 500) = Some (False, main_heap)
   \<and> BankService_getBalance main_heap main_bank ''ACC9999'' = Some (double_of_int (- 1))
   \<and> BankService_getUserByAccount main_bank ''ACC9999'' = None
   \<and> BankService_getAccount main_bank ''ACC9999'' = None"
proof -
  have h1: "''ACC9999'' \<notin> dom (users main_bank)"
    by (simp add: main_bank_def)
  have h2: "''ACC9999'' \<notin> dom (accounts main_bank)"
    by (simp add: main_bank_def)
  from h1 h2 unknown_account_not_found [OF h1 h2] show ?thesis
    by simp
qed

text \<open>\<open>addUser\<close> writes every key to both maps.\<close>

lemma addUser_loop_dom:
  "addUser_loop h user accs b = Some b' \<Longrightarrow> dom (users b) = dom (accounts b)
     \<Longrightarrow> dom (users b') = dom (accounts b')"
proof (induction accs arbitrary: b)
  case Nil
  then show ?case by simp
next
  case (Cons acc rest)
  from Cons.prems(1) obtain a :: Account where
    rest: "addUser_loop h user rest
             (b\<lparr>users := (users b)(accountNumber a \<mapsto> user),
                accounts := (accounts b)(accountNumber a \<mapsto> acc)\<rparr>) = Some b'"
    by (auto split: option.splits)
  have "dom (users (b\<lparr>users := (users b)(accountNumber a \<mapsto> user),
                       accounts := (accounts b)(accountNumber a \<mapsto> acc)\<rparr>)) =
        dom (accounts (b\<lparr>users := (users b)(accountNumber a \<mapsto> user),
                          accounts := (accounts b)(accountNumber a \<mapsto> acc)\<rparr>))"
    using Cons.prems(2) by simp
  with rest show ?case by (rule Cons.IH)
qed

lemma addUser_dom:
  "BankService_addUser h user b = Some b' \<Longrightarrow> dom (users b) = dom (accounts b)
     \<Longrightarrow> dom (users b') = dom (accounts b')"
proof -
  assume call: "BankService_addUser h user b = Some b'" and eq: "dom (users b) = dom (accounts b)"
  from call obtain u where "addUser_loop h user (User_getAccounts u) b = Some b'"
    by (auto simp: BankService_addUser_def split: option.splits)
  then show ?thesis using eq by (rule addUser_loop_dom)
qed

lemma addUsers_dom:
  "BankService_addUsers calls b = Some b' \<Longrightarrow> dom (users b) = dom (accounts b)
     \<Longrightarrow> dom (users b') = dom (accounts b')"
proof (induction calls arbitrary: b)
  case Nil
  then show ?case by simp
next
  case (Cons c calls)
  obtain h user where c: "c = (h, user)" by (cases c)
  from Cons.prems(1) obtain b1 where
    b1: "BankService_addUser h user b = Some b1" and rest: "BankService_addUsers calls b1 = Some b'"
    by (auto simp: c split: option.splits)
  from addUser_dom[OF b1 Cons.prems(2)] have "dom (users b1) = dom (accounts b1)" .
  with rest show ?case by (rule Cons.IH)
qed

text \<open>
  C8.  After any sequence of \<open>addUser\<close> calls on an empty directory, the map to users
  and the map to accounts have the same keys.
\<close>

theorem registered_maps_same_keys:
  assumes "BankService_addUsers calls BankService_new = Some b"
  shows "dom (users b) = dom (accounts b)"
proof -
  have "dom (users BankService_new) = dom (accounts BankService_new)"
    by (simp add: BankService_new_def)
  with assms show ?thesis by (rule addUsers_dom)
qed

theorem registered_maps_same_keys_witness:
  "BankService_addUsers [(main_heap, Some 0), (main_heap, Some 2)] BankService_new = Some main_bank
   \<and> dom (users main_bank) = dom (accounts main_bank)
   \<and> dom (users main_bank) = {''ACC1001'', ''ACC2001''}"
proof -
  have h: "BankService_addUsers [(main_heap, Some 0), (main_heap, Some 2)] BankService_new
             = Some main_bank"
    using main_bank_registered by simp
  have "dom (users main_bank) = {''ACC1001'', ''ACC2001''}"
    by (auto simp: main_bank_def)
  with h registered_maps_same_keys [OF h] show ?thesis
    by (intro conjI)
qed

text \<open>
  Registration on one heap establishes \<open>directory_ok\<close>: \<open>addUser\<close> reads the user and each
  of its accounts through their pointers before it stores them.
\<close>

lemma directory_ok_new: "directory_ok h BankService_new"
  by (simp add: directory_ok_def BankService_new_def)

lemma addUser_loop_ok:
  "addUser_loop h (Some p) accs b = Some b' \<Longrightarrow> user_at h p \<noteq> None \<Longrightarrow> directory_ok h b
     \<Longrightarrow> directory_ok h b'"
proof (induction accs arbitrary: b)
  case Nil
  then show ?case by simp
next
  case (Cons acc rest)
  from Cons.prems(1) obtain a :: Account where
    acc: "deref_account h acc = Some a" and
    rest: "addUser_loop h (Some p) rest
             (b\<lparr>users := (users b)(accountNumber a \<mapsto> Some p),
                accounts := (accounts b)(accountNumber a \<mapsto> acc)\<rparr>) = Some b'"
    by (auto split: option.splits)
  from acc obtain q where q: "acc = Some q" "account_at h q = Some a"
    by (auto simp: deref_account_def split: option.splits)
  have "directory_ok h (b\<lparr>users := (users b)(accountNumber a \<mapsto> Some p),
                           accounts := (accounts b)(accountNumber a \<mapsto> acc)\<rparr>)"
    using Cons.prems(2,3) q by (simp add: directory_ok_def)
  with rest Cons.prems(2) show ?case by (intro Cons.IH)
qed

lemma addUser_ok:
  "BankService_addUser h user b = Some b' \<Longrightarrow> directory_ok h b \<Longrightarrow> directory_ok h b'"
proof -
  assume call: "BankService_addUser h user b = Some b'" and ok: "directory_ok h b"
  from call obtain p u where p: "user = Some p" "user_at h p = Some u"
    and loop: "addUser_loop h user (User_getAccounts u) b = Some b'"
    by (auto simp: BankService_addUser_def deref_user_def split: option.splits)
  from loop p ok show ?thesis
    by (auto intro: addUser_loop_ok)
qed

lemma addUsers_ok:
  "BankService_addUsers (map (Pair h) us) b = Some b' \<Longrightarrow> directory_ok h b \<Longrightarrow> directory_ok h b'"
proof (induction us arbitrary: b)
  case Nil
  then show ?case by simp
next
  case (Cons u us)
  from Cons.prems(1) obtain b1 where
    b1: "BankService_addUser h u b = Some b1" and
    rest: "BankService_addUsers (map (Pair h) us) b1 = Some b'"
    by (auto split: option.splits)
  from b1 Cons.prems(2) have "directory_ok h b1" by (rule addUser_ok)
  with rest show ?case by (rule Cons.IH)
qed

section \<open>Properties of ATM\<close>

text \<open>
  C9.  Let the directory be built by \<open>addUser\<close> calls, the users being as they were then,
  and let the session be logged out.  Then \<open>login\<close> returns true exactly when the account
  number is registered and the PIN authenticates against the user registered for it; on
  success \<open>currentUser\<close> and \<open>currentAccount\<close> are the pointers registered for the number,
  and on failure (unknown number or wrong PIN) the session is unchanged and still logged
  out.
\<close>

theorem login_iff_registered_and_authenticated:
  assumes reg: "BankService_addUsers (map (Pair h0) us) BankService_new = Some b"
    and same: "user_at h = user_at h0"
    and out: "currentUser atm = None" "currentAccount atm = None"
  shows "\<exists>ok atm'. ATM_login h b accNum pn atm = Some (ok, atm') \<and>
           (ok \<longleftrightarrow> (\<exists>p u. users b accNum = Some (Some p) \<and> user_at h p = Some u \<and>
                          User_authenticate u pn)) \<and>
           (ok \<longrightarrow> (\<exists>p a. users b accNum = Some (Some p) \<and> accounts b accNum = Some (Some a) \<and>
                          currentUser atm' = Some p \<and> currentAccount atm' = Some a)) \<and>
           (\<not> ok \<longrightarrow> atm' = atm \<and> currentUser atm' = None \<and> currentAccount atm' = None)"
proof -
  from reg directory_ok_new have "directory_ok h0 b" by (rule addUsers_ok)
  then consider
    (unknown) "users b accNum = None" "accounts b accNum = None" |
    (known) p a u where "users b accNum = Some (Some p)" "user_at h p = Some u"
      "accounts b accNum = Some (Some a)"
    unfolding directory_ok_def same by (metis not_Some_eq)
  then show ?thesis
  proof cases
    case unknown
    with out show ?thesis
      by (auto simp: ATM_login_def BankService_getUserByAccount_def)
  next
    case known
    with out show ?thesis
      by (auto simp: ATM_login_def BankService_getUserByAccount_def BankService_getAccount_def)
  qed
qed

theorem login_iff_registered_and_authenticated_witness:
  "BankService_addUsers (map (Pair main_heap) [Some 0, Some 2]) BankService_new = Some main_bank
   \<and> user_at main_heap = user_at main_heap
   \<and> currentUser ATM_new = None \<and> currentAccount ATM_new = None
   \<and> ATM_login main_heap main_bank ''ACC1001'' ''1234'' ATM_new
       = Some (True, \<lparr>currentUser = Some 0, currentAccount = Some 1\<rparr>)
   \<and> ATM_login main_heap main_bank ''ACC1001'' ''wrong'' ATM_new = Some (False, ATM_new)
   \<and> ATM_login main_heap main_bank ''ACC9999'' ''anything'' ATM_new = Some (False, ATM_new)"
proof -
  have h1: "BankService_addUsers (map (Pair main_heap) [Some 0, Some 2]) BankService_new
              = Some main_bank"
    by (rule main_bank_registered)
  have h2: "user_at main_heap = user_at main_heap" ..
  have h3: "currentUser ATM_new = None" and h4: "currentAccount ATM_new = None"
    by (simp_all add: ATM_new_def)
  have u1: "users main_bank ''ACC1001'' = Some (Some 0)"
    and a1: "accounts main_bank ''ACC1001'' = Some (Some 1)"
    and u9: "users main_bank ''ACC9999'' = None"
    by (simp_all add: main_bank_def)
  have alice: "user_at main_heap 0 = Some \<lparr>name = ''Alice'', pin = ''1234'', accounts = [Some 1]\<rparr>"
    by (simp add: main_heap_def User_addAccount_def User_new_def)
  from login_iff_registered_and_authenticated [OF h1 h2 h3 h4, of "''ACC1001''" "''1234''"]
  have "ATM_login main_heap main_bank ''ACC1001'' ''1234'' ATM_new
          = Some (True, \<lparr>currentUser = Some 0, currentAccount = Some 1\<rparr>)"
    unfolding u1 a1 by (auto simp: alice User_authenticate_def ATM_new_def)
  moreover
  from login_iff_registered_and_authenticated [OF h1 h2 h3 h4, of "''ACC1001''" "''wrong''"]
  have "ATM_login main_heap main_bank ''ACC1001'' ''wrong'' ATM_new = Some (False, ATM_new)"
    unfolding u1 a1 by (auto simp: alice User_authenticate_def)
  moreover
  from login_iff_registered_and_authenticated [OF h1 h2 h3 h4, of "''ACC9999''" "''anything''"]
  have "ATM_login main_heap main_bank ''ACC9999'' ''anything'' ATM_new = Some (False, ATM_new)"
    unfolding u9 by auto
  ultimately show ?thesis
    using h1 h3 h4 by simp
qed

section \<open>Further properties\<close>

text \<open>
  Deposits of the same amount made one after the other, each at its own clock reading:
  the history gains exactly one \<open>DEPOSIT\<close> entry per call, in call order, and the balance
  is the initial balance with the amount added once per call.
\<close>

theorem repeated_deposits:
  "transactions (Account_calls (map (\<lambda>now. CallDeposit now A) ts) acc) =
     transactions acc @ map (\<lambda>now. \<lparr>type = DEPOSIT, amount = A, timestamp = now\<rparr>) ts
   \<and> length (transactions (Account_calls (map (\<lambda>now. CallDeposit now A) ts) acc)) =
       length (transactions acc) + length ts
   \<and> balance (Account_calls (map (\<lambda>now. CallDeposit now A) ts) acc) =
       foldl (\<lambda>b now. fadd b A) (balance acc) ts
   \<and> accountNumber (Account_calls (map (\<lambda>now. CallDeposit now A) ts) acc) = accountNumber acc"
proof (induction ts arbitrary: acc)
  case Nil
  show ?case by simp
next
  case (Cons t ts)
  show ?case
    using Cons.IH [of "Account_deposit t A acc"]
    by (simp add: Account_deposit_def Transaction_new_def)
qed

text \<open>
  The scenario of the setup of \<open>main\<close>: on ACC1001 with balance 1000, a deposit of 500
  gives 1500, a withdrawal of 2000 is rejected and changes nothing, a withdrawal of 1500
  gives 0, and the history then holds the deposit and the second withdrawal.  The other
  account is untouched.
\<close>

theorem main_scenario:
  "\<exists>h1 h2.
     BankService_deposit ''Tue Nov  3 10:11:12 2026'' main_heap main_bank ''ACC1001''
       (double_of_int 500) = Some (True, h1)
     \<and> BankService_getBalance h1 main_bank ''ACC1001'' = Some (double_of_int 1500)
     \<and> BankService_withdraw ''Tue Nov  3 10:11:13 2026'' h1 main_bank ''ACC1001''
         (double_of_int 2000) = Some (False, h1)
     \<and> BankService_withdraw ''Tue Nov  3 10:11:14 2026'' h1 main_bank ''ACC1001''
         (double_of_int 1500) = Some (True, h2)
     \<and> BankService_getBalance h2 main_bank ''ACC1001'' = Some (double_of_int 0)
     \<and> map_option transactions (account_at h2 1) =
         Some [\<lparr>type = DEPOSIT, amount = double_of_int 500,
                 timestamp = ''Tue Nov  3 10:11:12 2026''\<rparr>,
               \<lparr>type = WITHDRAW, amount = double_of_int 1500,
                 timestamp = ''Tue Nov  3 10:11:14 2026''\<rparr>]
     \<and> BankService_getBalance h2 main_bank ''ACC2001'' = Some (double_of_int 500)"
proof -
  have sum: "fadd (double_of_int 1000) (double_of_int 500) = double_of_int 1500"
    by (simp add: double_eval)
  have big: "fgt (double_of_int 2000) (double_of_int 1500)"
    by (simp add: double_eval)
  have all: "\<not> fgt (double_of_int 1500) (double_of_int 1500)"
    by (simp add: double_eval)
  have zero: "fsub (double_of_int 1500) (double_of_int 1500) = double_of_int 0"
    by (simp add: double_eval)
  show ?thesis
    by (simp add: BankService_deposit_def BankService_withdraw_def BankService_getBalance_def
        BankService_getAccount_def Account_getBalance_def main_bank_def main_heap_def
        Account_deposit_def Account_withdraw_def Account_new_def Transaction_new_def
        sum big all zero)
qed

text \<open>\<open>logout\<close> makes both pointers of the session null.\<close>

theorem logout_clears_session:
  "ATM_logout atm = \<lparr>currentUser = None, currentAccount = None\<rparr>"
  by (simp add: ATM_logout_def)

end
